theory Spec2Isabelle
  imports Main
begin

section \<open>Data model of main.go\<close>

text \<open>
  \<^verbatim>\<open>type Cell int; const ( Empty Cell = iota; X; O )\<close>.
  The constructor for \<^verbatim>\<open>O\<close> is written \<open>O'\<close>, since \<open>O\<close> is the
  library's notation for relation composition.
\<close>

datatype Cell = Empty | X | O'

text \<open>\<^verbatim>\<open>type GameState int; const ( Playing GameState = iota; XWins; OWins; Draw )\<close>\<close>

datatype GameState = Playing | XWins | OWins | Draw

text \<open>
  \<^verbatim>\<open>board [BoardSize][BoardSize]Cell\<close> is a fixed array of three fixed arrays of three
  cells: a triple of triples, so that the model has exactly the boards the Go type has.
\<close>

type_synonym row = "Cell \<times> Cell \<times> Cell"
type_synonym board = "row \<times> row \<times> row"

record Game =
  board :: board
  currentTurn :: Cell
  state :: GameState
  aiDelay :: int

definition ScreenWidth :: int where
  "ScreenWidth = 600"

definition BoardSize :: nat where
  "BoardSize = 3"

text \<open>\<^verbatim>\<open>CellSize = ScreenWidth / BoardSize\<close>, a constant expression of value 200.\<close>

definition CellSize :: int where
  "CellSize = ScreenWidth div int BoardSize"

text \<open>
  Indexing a three-element array. Go panics on an index outside \<open>0..2\<close>; every index
  expression of main.go is a constant below 3, a loop variable bounded by
  \<^verbatim>\<open>BoardSize\<close>, a click coordinate tested against the bounds before the access, or an
  entry of \<^verbatim>\<open>emptyCells\<close>, so the functions below are only ever applied below 3.
  An update at an index from 3 on changes nothing.
\<close>

fun nth3 :: "'a \<times> 'a \<times> 'a \<Rightarrow> nat \<Rightarrow> 'a" where
  "nth3 (a, b, c) i = (if i = 0 then a else if i = 1 then b else c)"

fun upd3 :: "'a \<times> 'a \<times> 'a \<Rightarrow> nat \<Rightarrow> 'a \<Rightarrow> 'a \<times> 'a \<times> 'a" where
  "upd3 (a, b, c) i v =
     (if i = 0 then (v, b, c) else if i = 1 then (a, v, c) else if i = 2 then (a, b, v)
      else (a, b, c))"

text \<open>\<^verbatim>\<open>g.board[row][col]\<close> read and \<^verbatim>\<open>g.board[row][col] = v\<close>.\<close>

definition cell :: "board \<Rightarrow> nat \<Rightarrow> nat \<Rightarrow> Cell" where
  "cell b row col = nth3 (nth3 b row) col"

definition put :: "board \<Rightarrow> nat \<Rightarrow> nat \<Rightarrow> Cell \<Rightarrow> board" where
  "put b row col v = upd3 b row (upd3 (nth3 b row) col v)"

text \<open>The zero value of the board array: every cell is \<^verbatim>\<open>Empty\<close> (iota 0).\<close>

definition emptyBoard :: board where
  "emptyBoard = ((Empty, Empty, Empty), (Empty, Empty, Empty), (Empty, Empty, Empty))"

text \<open>
  The cells in the order of the nested loops
  \<^verbatim>\<open>for row := 0; row < BoardSize; row++ { for col := 0; col < BoardSize; col++ {\<close>:
  row-major.
\<close>

definition allCells :: "(nat \<times> nat) list" where
  "allCells = concat (map (\<lambda>row. map (\<lambda>col. (row, col)) [0..<BoardSize]) [0..<BoardSize])"

section \<open>Operations\<close>

text \<open>\<^verbatim>\<open>NewGame\<close>: the fields not named in the literal have their zero value.\<close>

definition NewGame :: Game where
  "NewGame = \<lparr>board = emptyBoard, currentTurn = X, state = Playing, aiDelay = 0\<rparr>"

text \<open>
  \<^verbatim>\<open>checkWin\<close> reads only \<^verbatim>\<open>g.board\<close> and takes no mark: three loops and tests with
  early \<^verbatim>\<open>return true\<close>, then \<^verbatim>\<open>return false\<close>.
\<close>

definition checkWin :: "board \<Rightarrow> bool" where
  "checkWin b =
     (if list_ex (\<lambda>row. cell b row 0 \<noteq> Empty \<and> cell b row 0 = cell b row 1
                        \<and> cell b row 1 = cell b row 2) [0..<BoardSize] then True
      else if list_ex (\<lambda>col. cell b 0 col \<noteq> Empty \<and> cell b 0 col = cell b 1 col
                        \<and> cell b 1 col = cell b 2 col) [0..<BoardSize] then True
      else if cell b 0 0 \<noteq> Empty \<and> cell b 0 0 = cell b 1 1 \<and> cell b 1 1 = cell b 2 2 then True
      else if cell b 0 2 \<noteq> Empty \<and> cell b 0 2 = cell b 1 1 \<and> cell b 1 1 = cell b 2 0 then True
      else False)"

text \<open>\<^verbatim>\<open>checkDraw\<close>: \<^verbatim>\<open>return false\<close> at the first empty cell, else true.\<close>

definition checkDraw :: "board \<Rightarrow> bool" where
  "checkDraw b =
     (if list_ex (\<lambda>(row, col). cell b row col = Empty) allCells then False else True)"

text \<open>
  \<^verbatim>\<open>Reset\<close>: the nested \<^verbatim>\<open>range\<close> loops store \<^verbatim>\<open>Empty\<close> in every cell, then the
  three other fields are set.
\<close>

definition Reset :: "Game \<Rightarrow> Game" where
  "Reset g =
     g\<lparr>board := fold (\<lambda>(i, j) b. put b i j Empty) allCells (board g),
       currentTurn := X, state := Playing, aiDelay := 0\<rparr>"

text \<open>
  The first loop of \<^verbatim>\<open>makeAIMove\<close>, over the cells still to visit. It threads the board
  through the hypothetical placements and their undoing; the flag says whether the loop
  left through \<^verbatim>\<open>return\<close> (the winning move stays in place).
\<close>

fun tryWin :: "board \<Rightarrow> (nat \<times> nat) list \<Rightarrow> bool \<times> board" where
  "tryWin b [] = (False, b)"
| "tryWin b ((row, col) # rest) =
     (if cell b row col = Empty then
        (let b1 = put b row col O' in
         if checkWin b1 then (True, b1)
         else tryWin (put b1 row col Empty) rest)
      else tryWin b rest)"

text \<open>
  \<^verbatim>\<open>makeAIMove\<close>. The draw \<^verbatim>\<open>rng.Intn(len(emptyCells))\<close> is some number below the
  length; the model takes a raw draw \<open>rnd\<close> and reduces it modulo the length, so that
  every raw draw gives a legal result and every legal result comes from some raw draw.
  \<^verbatim>\<open>Intn\<close> is only called with a positive length.
\<close>

definition makeAIMove :: "nat \<Rightarrow> board \<Rightarrow> board" where
  "makeAIMove rnd b =
     (case tryWin b allCells of
        (True, b1) \<Rightarrow> b1
      | (False, b1) \<Rightarrow>
          if cell b1 1 1 = Empty then put b1 1 1 O'
          else
            (let emptyCells = filter (\<lambda>(row, col). cell b1 row col = Empty) allCells in
             if length emptyCells > 0 then
               (let randomCell = emptyCells ! (rnd mod length emptyCells) in
                put b1 (fst randomCell) (snd randomCell) O')
             else b1))"

text \<open>Go's integer division truncates toward zero.\<close>

definition go_div :: "int \<Rightarrow> int \<Rightarrow> int" where
  "go_div a b = sgn a * sgn b * (\<bar>a\<bar> div \<bar>b\<bar>)"

text \<open>
  What one call of \<^verbatim>\<open>Update\<close> reads from outside the game: the edge signal
  \<^verbatim>\<open>inpututil.IsMouseButtonJustPressed(ebiten.MouseButtonLeft)\<close>, the cursor position
  \<^verbatim>\<open>ebiten.CursorPosition()\<close> and the raw draw of the random source.
\<close>

record Frame =
  justPressed :: bool
  cursorX :: int
  cursorY :: int
  rngDraw :: nat

text \<open>\<^verbatim>\<open>Update\<close> always returns the nil error; the model returns the game after the call.\<close>

definition Update :: "Frame \<Rightarrow> Game \<Rightarrow> Game" where
  "Update inp g =
     (if state g \<noteq> Playing then
        (if justPressed inp then Reset g else g)
      else if currentTurn g = X then
        (if justPressed inp then
           (let row = go_div (cursorY inp) CellSize;
                col = go_div (cursorX inp) CellSize in
            if row \<ge> 0 \<and> row < int BoardSize \<and> col \<ge> 0 \<and> col < int BoardSize
               \<and> cell (board g) (nat row) (nat col) = Empty then
              (let g1 = g\<lparr>board := put (board g) (nat row) (nat col) (currentTurn g)\<rparr> in
               if checkWin (board g1) then g1\<lparr>state := XWins\<rparr>
               else if checkDraw (board g1) then g1\<lparr>state := Draw\<rparr>
               else g1\<lparr>currentTurn := O', aiDelay := 30\<rparr>)
            else g)
         else g)
      else
        (if aiDelay g > 0 then g\<lparr>aiDelay := aiDelay g - 1\<rparr>
         else
           (let g1 = g\<lparr>board := makeAIMove (rngDraw inp) (board g)\<rparr> in
            if checkWin (board g1) then g1\<lparr>state := OWins\<rparr>
            else if checkDraw (board g1) then g1\<lparr>state := Draw\<rparr>
            else g1\<lparr>currentTurn := X\<rparr>)))"

section \<open>Notions of the specification\<close>

text \<open>
  A row, a column or a diagonal of the board is entirely occupied by the mark \<open>m\<close>.
\<close>

definition hasLine :: "board \<Rightarrow> Cell \<Rightarrow> bool" where
  "hasLine b m =
     (list_ex (\<lambda>row. list_all (\<lambda>col. cell b row col = m) [0..<BoardSize]) [0..<BoardSize]
      \<or> list_ex (\<lambda>col. list_all (\<lambda>row. cell b row col = m) [0..<BoardSize]) [0..<BoardSize]
      \<or> list_all (\<lambda>i. cell b i i = m) [0..<BoardSize]
      \<or> list_all (\<lambda>i. cell b i (BoardSize - 1 - i) = m) [0..<BoardSize])"

text \<open>
  The row of the cell \<open>p\<close>, its column, or a diagonal on which \<open>p\<close> lies is entirely
  occupied by the mark \<open>m\<close>.
\<close>

definition lineThrough :: "board \<Rightarrow> nat \<times> nat \<Rightarrow> Cell \<Rightarrow> bool" where
  "lineThrough b p m =
     (list_all (\<lambda>col. cell b (fst p) col = m) [0..<BoardSize]
      \<or> list_all (\<lambda>row. cell b row (snd p) = m) [0..<BoardSize]
      \<or> (fst p = snd p \<and> list_all (\<lambda>i. cell b i i = m) [0..<BoardSize])
      \<or> (fst p + snd p = BoardSize - 1
          \<and> list_all (\<lambda>i. cell b i (BoardSize - 1 - i) = m) [0..<BoardSize]))"

text \<open>
  The cell \<open>p\<close> is empty and filling it with the AI's mark \<^verbatim>\<open>O\<close> completes a row, a
  column or a diagonal of that mark: after the placement a line through \<open>p\<close> is entirely
  \<^verbatim>\<open>O\<close>. A line that was complete before does not count, since it does not pass
  through an empty cell. \<open>firstCompleting\<close> is the first such cell in row-major order,
  if there is one.
\<close>

definition completesLine :: "board \<Rightarrow> nat \<times> nat \<Rightarrow> bool" where
  "completesLine b p =
     (cell b (fst p) (snd p) = Empty \<and> lineThrough (put b (fst p) (snd p) O') p O')"

definition firstCompleting :: "board \<Rightarrow> (nat \<times> nat) option" where
  "firstCompleting b = find (completesLine b) allCells"

text \<open>
  The number of cells that hold the mark \<open>m\<close>.
\<close>

definition countMark :: "board \<Rightarrow> Cell \<Rightarrow> nat" where
  "countMark b m = length (filter (\<lambda>(row, col). cell b row col = m) allCells)"

text \<open>
  The games that the frame loop can produce: it starts from \<^verbatim>\<open>NewGame()\<close> and calls
  \<^verbatim>\<open>Update\<close> once per frame, with any input; \<^verbatim>\<open>Reset\<close> is also taken as a step of
  its own.
\<close>

inductive reachable :: "Game \<Rightarrow> bool" where
  init: "reachable NewGame"
| step: "reachable g \<Longrightarrow> reachable (Update inp g)"
| reset: "reachable g \<Longrightarrow> reachable (Reset g)"

text \<open>
  The board coordinates of a click, as \<^verbatim>\<open>Update\<close> computes them from the cursor
  position, and the test that \<^verbatim>\<open>Update\<close> makes before it places the human's mark.
\<close>

definition clickRow :: "Frame \<Rightarrow> int" where
  "clickRow inp = go_div (cursorY inp) CellSize"

definition clickCol :: "Frame \<Rightarrow> int" where
  "clickCol inp = go_div (cursorX inp) CellSize"

definition clickValid :: "Frame \<Rightarrow> Game \<Rightarrow> bool" where
  "clickValid inp g =
     (0 \<le> clickRow inp \<and> clickRow inp < 3 \<and> 0 \<le> clickCol inp \<and> clickCol inp < 3
      \<and> cell (board g) (nat (clickRow inp)) (nat (clickCol inp)) = Empty)"

section \<open>Auxiliary definitions\<close>

text \<open>
  The test of one line in \<^verbatim>\<open>checkWin\<close>, and a line that is entirely \<open>m\<close>.
\<close>

definition same3 :: "Cell \<Rightarrow> Cell \<Rightarrow> Cell \<Rightarrow> bool" where
  "same3 x y z = (x \<noteq> Empty \<and> x = y \<and> y = z)"

definition all3 :: "Cell \<Rightarrow> Cell \<Rightarrow> Cell \<Rightarrow> Cell \<Rightarrow> bool" where
  "all3 m x y z = (x = m \<and> y = m \<and> z = m)"

text \<open>
  The test of the first loop of \<^verbatim>\<open>makeAIMove\<close> at one cell, and the list
  \<^verbatim>\<open>emptyCells\<close> that its last part collects.
\<close>

definition winsAt :: "board \<Rightarrow> nat \<times> nat \<Rightarrow> bool" where
  "winsAt b p = (cell b (fst p) (snd p) = Empty \<and> checkWin (put b (fst p) (snd p) O'))"

definition emptyCellsOf :: "board \<Rightarrow> (nat \<times> nat) list" where
  "emptyCellsOf b = filter (\<lambda>(row, col). cell b row col = Empty) allCells"

text \<open>
  The end of both branches of \<^verbatim>\<open>Update\<close> after a mark was placed: a win, a draw, or
  the turn passes on.
\<close>

definition settle :: "Game \<Rightarrow> GameState \<Rightarrow> Cell \<Rightarrow> int \<Rightarrow> Game" where
  "settle g1 won turn delay =
     (if checkWin (board g1) then g1\<lparr>state := won\<rparr>
      else if checkDraw (board g1) then g1\<lparr>state := Draw\<rparr>
      else g1\<lparr>currentTurn := turn, aiDelay := delay\<rparr>)"

text \<open>
  The invariant of the reachable games: while playing, no line is complete, a cell is
  empty, and the counts of the two marks follow the turn.
\<close>

definition countsOk :: "Game \<Rightarrow> bool" where
  "countsOk g =
     (if state g = Playing then
        \<not> checkWin (board g) \<and> \<not> checkDraw (board g) \<and>
        (if currentTurn g = X then countMark (board g) X = countMark (board g) O'
         else countMark (board g) X = Suc (countMark (board g) O'))
      else countMark (board g) X = countMark (board g) O'
           \<or> countMark (board g) X = Suc (countMark (board g) O'))"

section \<open>The board\<close>

lemma upt_BoardSize: "[0..<BoardSize] = [0, 1, 2]"
  by (simp add: BoardSize_def upt_rec)

lemma allCells_eq:
  "allCells = [(0,0), (0,1), (0,2), (1,0), (1,1), (1,2), (2,0), (2,1), (2,2)]"
  by (simp add: allCells_def upt_BoardSize)

lemma less_3_cases: "(i::nat) < 3 \<longleftrightarrow> i = 0 \<or> i = 1 \<or> i = 2"
  by auto

lemma all_less_3: "(\<forall>i<3::nat. P i) \<longleftrightarrow> P 0 \<and> P 1 \<and> P 2"
  by (auto simp: less_3_cases)

lemma set_allCells: "set allCells = {(row, col). row < 3 \<and> col < 3}"
  by (auto simp: allCells_eq less_3_cases)

lemma distinct_allCells: "distinct allCells"
  by (simp add: allCells_eq)

lemma nth3_upd3: "i < 3 \<Longrightarrow> j < 3 \<Longrightarrow> nth3 (upd3 t i v) j = (if j = i then v else nth3 t j)"
  by (cases t) (auto simp: less_3_cases)

lemma upd3_upd3: "upd3 (upd3 t i v) i w = upd3 t i w"
  by (cases t) auto

lemma upd3_nth3: "i < 3 \<Longrightarrow> upd3 t i (nth3 t i) = t"
  by (cases t) (auto simp: less_3_cases)

lemma cell_put:
  "row < 3 \<Longrightarrow> col < 3 \<Longrightarrow> i < 3 \<Longrightarrow> j < 3 \<Longrightarrow>
   cell (put b row col v) i j = (if i = row \<and> j = col then v else cell b i j)"
  by (simp add: cell_def put_def nth3_upd3)

lemma put_put: "row < 3 \<Longrightarrow> put (put b row col v) row col w = put b row col w"
  by (simp add: put_def nth3_upd3 upd3_upd3)

lemma put_same: "row < 3 \<Longrightarrow> col < 3 \<Longrightarrow> cell b row col = v \<Longrightarrow> put b row col v = b"
  by (auto simp add: put_def cell_def upd3_nth3)

lemma put_undo:
  "row < 3 \<Longrightarrow> col < 3 \<Longrightarrow> cell b row col = Empty \<Longrightarrow>
   put (put b row col v) row col Empty = b"
  by (simp add: put_put put_same)

lemma nth3_ext:
  assumes "\<And>i. i < 3 \<Longrightarrow> nth3 t i = nth3 t' i"
  shows "t = t'"
proof -
  have "\<forall>i<3. nth3 t i = nth3 t' i"
    using assms by blast
  then show ?thesis
    unfolding all_less_3 by (cases t; cases t') simp
qed

lemma board_ext:
  assumes "\<And>i j. i < 3 \<Longrightarrow> j < 3 \<Longrightarrow> cell b i j = cell b' i j"
  shows "b = b'"
proof (rule nth3_ext)
  fix i :: nat
  assume "i < 3"
  then show "nth3 b i = nth3 b' i"
    using assms by (intro nth3_ext) (simp add: cell_def)
qed

section \<open>Complete lines\<close>

lemma same3_iff: "same3 x y z \<longleftrightarrow> all3 X x y z \<or> all3 O' x y z"
  by (cases x) (auto simp: same3_def all3_def)

lemma checkWin_same3:
  "checkWin b \<longleftrightarrow>
     same3 (cell b 0 0) (cell b 0 1) (cell b 0 2) \<or>
     same3 (cell b 1 0) (cell b 1 1) (cell b 1 2) \<or>
     same3 (cell b 2 0) (cell b 2 1) (cell b 2 2) \<or>
     same3 (cell b 0 0) (cell b 1 0) (cell b 2 0) \<or>
     same3 (cell b 0 1) (cell b 1 1) (cell b 2 1) \<or>
     same3 (cell b 0 2) (cell b 1 2) (cell b 2 2) \<or>
     same3 (cell b 0 0) (cell b 1 1) (cell b 2 2) \<or>
     same3 (cell b 0 2) (cell b 1 1) (cell b 2 0)"
  by (simp only: checkWin_def upt_BoardSize list_ex_Nil_iff list_ex_Cons_iff
        same3_def[symmetric] simp_thms) simp

lemma hasLine_iff:
  "hasLine b m \<longleftrightarrow>
     all3 m (cell b 0 0) (cell b 0 1) (cell b 0 2) \<or>
     all3 m (cell b 1 0) (cell b 1 1) (cell b 1 2) \<or>
     all3 m (cell b 2 0) (cell b 2 1) (cell b 2 2) \<or>
     all3 m (cell b 0 0) (cell b 1 0) (cell b 2 0) \<or>
     all3 m (cell b 0 1) (cell b 1 1) (cell b 2 1) \<or>
     all3 m (cell b 0 2) (cell b 1 2) (cell b 2 2) \<or>
     all3 m (cell b 0 0) (cell b 1 1) (cell b 2 2) \<or>
     all3 m (cell b 0 2) (cell b 1 1) (cell b 2 0)"
  by (simp add: hasLine_def upt_BoardSize all3_def) (simp add: BoardSize_def)

lemma checkWin_hasLine: "checkWin b \<longleftrightarrow> hasLine b X \<or> hasLine b O'"
  unfolding checkWin_same3 hasLine_iff same3_iff by blast

section \<open>The AI's move\<close>

lemma tryWin_find:
  "\<forall>p\<in>set cs. fst p < 3 \<and> snd p < 3 \<Longrightarrow>
   tryWin b cs =
     (case find (winsAt b) cs of
        None \<Rightarrow> (False, b)
      | Some p \<Rightarrow> (True, put b (fst p) (snd p) O'))"
proof (induction cs)
  case Nil
  then show ?case by simp
next
  case (Cons p cs)
  obtain row col where p: "p = (row, col)"
    by (cases p)
  from Cons.prems have rc: "row < 3" "col < 3"
    by (simp_all add: p)
  from Cons have IH: "tryWin b cs =
     (case find (winsAt b) cs of None \<Rightarrow> (False, b) | Some p \<Rightarrow> (True, put b (fst p) (snd p) O'))"
    by simp
  have w: "winsAt b (row, col) \<longleftrightarrow> cell b row col = Empty \<and> checkWin (put b row col O')"
    by (simp add: winsAt_def)
  show ?case
    by (simp add: p Let_def put_undo rc IH w)
qed

lemma mem_allCells: "p \<in> set allCells \<longleftrightarrow> fst p < 3 \<and> snd p < 3"
  by (cases p) (simp add: set_allCells)

lemma in_range_allCells: "\<forall>p\<in>set allCells. fst p < 3 \<and> snd p < 3"
  by (simp add: mem_allCells)

lemma tryWin_allCells:
  "tryWin b allCells =
     (case find (winsAt b) allCells of
        None \<Rightarrow> (False, b)
      | Some p \<Rightarrow> (True, put b (fst p) (snd p) O'))"
  by (rule tryWin_find [OF in_range_allCells])

lemma find_allCells_first:
  assumes "row < 3" "col < 3" "P (row, col)"
    and "\<forall>i<3. \<forall>j<3. (i < row \<or> (i = row \<and> j < col)) \<longrightarrow> \<not> P (i, j)"
  shows "find P allCells = Some (row, col)"
  using assms unfolding all_less_3 less_3_cases
  by (elim disjE) (simp_all add: allCells_eq)

lemma find_allCells_None:
  "find P allCells = None \<longleftrightarrow> (\<forall>i<3. \<forall>j<3. \<not> P (i, j))"
  by (auto simp: find_None_iff mem_allCells)

lemma find_SomeD: "find P xs = Some x \<Longrightarrow> x \<in> set xs \<and> P x"
  by (induction xs) (auto split: if_splits)

lemma find_allCells_Some:
  "find P allCells = Some p \<Longrightarrow> fst p < 3 \<and> snd p < 3 \<and> P p"
  by (auto dest: find_SomeD simp: mem_allCells)

lemma makeAIMove_eq:
  "makeAIMove rnd b =
     (case find (winsAt b) allCells of
        Some p \<Rightarrow> put b (fst p) (snd p) O'
      | None \<Rightarrow>
          if cell b 1 1 = Empty then put b 1 1 O'
          else if emptyCellsOf b = [] then b
          else put b (fst (emptyCellsOf b ! (rnd mod length (emptyCellsOf b))))
                     (snd (emptyCellsOf b ! (rnd mod length (emptyCellsOf b)))) O')"
  by (simp add: makeAIMove_def tryWin_allCells emptyCellsOf_def Let_def split: option.split)

lemma emptyCellsOf_mem:
  "p \<in> set (emptyCellsOf b) \<longleftrightarrow> fst p < 3 \<and> snd p < 3 \<and> cell b (fst p) (snd p) = Empty"
  by (cases p) (auto simp: emptyCellsOf_def mem_allCells)

lemma emptyCellsOf_Nil: "emptyCellsOf b = [] \<longleftrightarrow> (\<forall>i<3. \<forall>j<3. cell b i j \<noteq> Empty)"
  by (auto simp: emptyCellsOf_def filter_empty_conv mem_allCells)

lemma checkDraw_iff: "checkDraw b \<longleftrightarrow> (\<forall>i<3. \<forall>j<3. cell b i j \<noteq> Empty)"
  by (auto simp: checkDraw_def list_ex_iff mem_allCells) blast

lemma makeAIMove_full:
  assumes "\<forall>i<3. \<forall>j<3. cell b i j \<noteq> Empty"
  shows "makeAIMove rnd b = b"
proof -
  have "find (winsAt b) allCells = None"
    using assms by (simp add: find_allCells_None winsAt_def)
  moreover have "cell b 1 1 \<noteq> Empty"
    using assms by simp
  moreover have "emptyCellsOf b = []"
    using assms by (simp add: emptyCellsOf_Nil)
  ultimately show ?thesis
    by (simp add: makeAIMove_eq)
qed

lemma makeAIMove_places:
  assumes "\<exists>i<3. \<exists>j<3. cell b i j = Empty"
  shows "\<exists>row<3. \<exists>col<3. cell b row col = Empty \<and> makeAIMove rnd b = put b row col O'"
proof (cases "find (winsAt b) allCells")
  case (Some p)
  then have "fst p < 3 \<and> snd p < 3 \<and> winsAt b p"
    by (rule find_allCells_Some)
  with Some show ?thesis
    by (auto simp: makeAIMove_eq winsAt_def)
next
  case None
  show ?thesis
  proof (cases "cell b 1 1 = Empty")
    case True
    with None have "makeAIMove rnd b = put b 1 1 O'"
      by (simp add: makeAIMove_eq)
    with True have "(1::nat) < 3 \<and> (1::nat) < 3 \<and> cell b 1 1 = Empty
        \<and> makeAIMove rnd b = put b 1 1 O'"
      by simp
    then show ?thesis
      by blast
  next
    case False
    from assms have ne: "emptyCellsOf b \<noteq> []"
      by (auto simp: emptyCellsOf_Nil)
    define p where "p = emptyCellsOf b ! (rnd mod length (emptyCellsOf b))"
    from ne have "p \<in> set (emptyCellsOf b)"
      unfolding p_def by (intro nth_mem) simp
    then have "fst p < 3 \<and> snd p < 3 \<and> cell b (fst p) (snd p) = Empty"
      by (simp add: emptyCellsOf_mem)
    moreover have "makeAIMove rnd b = put b (fst p) (snd p) O'"
      using None False ne by (simp add: makeAIMove_eq p_def)
    ultimately show ?thesis
      by blast
  qed
qed

section \<open>Lines after a placement\<close>

lemma hasLine_mono:
  assumes "\<forall>i<3. \<forall>j<3. cell b' i j = m \<longrightarrow> cell b i j = m"
    and "hasLine b' m"
  shows "hasLine b m"
proof -
  have c: "\<And>i j. i < 3 \<Longrightarrow> j < 3 \<Longrightarrow> cell b' i j = m \<Longrightarrow> cell b i j = m"
    using assms(1) by blast
  have l: "\<And>i1 j1 i2 j2 i3 j3. i1 < 3 \<Longrightarrow> j1 < 3 \<Longrightarrow> i2 < 3 \<Longrightarrow> j2 < 3 \<Longrightarrow> i3 < 3 \<Longrightarrow> j3 < 3 \<Longrightarrow>
      all3 m (cell b' i1 j1) (cell b' i2 j2) (cell b' i3 j3) \<Longrightarrow>
      all3 m (cell b i1 j1) (cell b i2 j2) (cell b i3 j3)"
    by (simp add: all3_def c)
  from assms(2) show ?thesis
    unfolding hasLine_iff by (elim disjE) (simp_all add: l)
qed

lemma hasLine_put_other:
  assumes "row < 3" "col < 3" "v \<noteq> m" "hasLine (put b row col v) m"
  shows "hasLine b m"
proof (rule hasLine_mono [OF _ assms(4)])
  show "\<forall>i<3. \<forall>j<3. cell (put b row col v) i j = m \<longrightarrow> cell b i j = m"
    using assms(1-3) by (auto simp: cell_put)
qed

lemma hasLine_put_same:
  assumes "row < 3" "col < 3" "hasLine b m"
  shows "hasLine (put b row col m) m"
proof (rule hasLine_mono [OF _ assms(3)])
  show "\<forall>i<3. \<forall>j<3. cell b i j = m \<longrightarrow> cell (put b row col m) i j = m"
    using assms(1-2) by (auto simp: cell_put)
qed

lemma lineThrough_iff:
  "lineThrough b (row, col) m \<longleftrightarrow>
     all3 m (cell b row 0) (cell b row 1) (cell b row 2) \<or>
     all3 m (cell b 0 col) (cell b 1 col) (cell b 2 col) \<or>
     (row = col \<and> all3 m (cell b 0 0) (cell b 1 1) (cell b 2 2)) \<or>
     (row + col = 2 \<and> all3 m (cell b 0 2) (cell b 1 1) (cell b 2 0))"
  by (simp add: lineThrough_def upt_BoardSize all3_def) (simp add: BoardSize_def)

lemma hasLine_put_lineThrough:
  assumes "row < 3" "col < 3" "\<not> hasLine b m"
  shows "hasLine (put b row col v) m \<longleftrightarrow> lineThrough (put b row col v) (row, col) m"
proof -
  note old = assms(3) [unfolded hasLine_iff]
  show ?thesis
    using assms(1,2) old unfolding less_3_cases
    by (elim disjE; simp add: hasLine_iff lineThrough_iff cell_put)
qed

lemma winsAt_completesLine:
  assumes "\<not> hasLine b X" "\<not> hasLine b O'" "fst p < 3" "snd p < 3"
  shows "winsAt b p \<longleftrightarrow> completesLine b p"
proof -
  have "\<not> hasLine (put b (fst p) (snd p) O') X"
    using assms hasLine_put_other [of "fst p" "snd p" O' X b] by auto
  moreover have "hasLine (put b (fst p) (snd p) O') O'
      \<longleftrightarrow> lineThrough (put b (fst p) (snd p) O') p O'"
    using hasLine_put_lineThrough [OF assms(3,4,2), of O'] by simp
  ultimately show ?thesis
    by (simp add: winsAt_def completesLine_def checkWin_hasLine)
qed

lemma find_winsAt_completesLine:
  assumes "\<not> hasLine b X" "\<not> hasLine b O'"
  shows "find (winsAt b) allCells = firstCompleting b"
  unfolding firstCompleting_def
  by (rule find_cong) (simp_all add: mem_allCells winsAt_completesLine [OF assms])

lemma firstCompleting_None:
  "firstCompleting b = None \<longleftrightarrow> (\<forall>i<3. \<forall>j<3. \<not> completesLine b (i, j))"
  by (simp add: firstCompleting_def find_allCells_None)

lemma firstCompleting_first:
  assumes "row < 3" "col < 3" "completesLine b (row, col)"
    and "\<forall>i<3. \<forall>j<3. (i < row \<or> (i = row \<and> j < col)) \<longrightarrow> \<not> completesLine b (i, j)"
  shows "firstCompleting b = Some (row, col)"
  unfolding firstCompleting_def using assms by (rule find_allCells_first)

section \<open>Counting marks\<close>

lemma countMark_alt:
  "countMark b m = length (filter (\<lambda>p. cell b (fst p) (snd p) = m) allCells)"
  by (simp add: countMark_def case_prod_unfold)

lemma count_put_other:
  assumes "row < 3" "col < 3" "cell b row col \<noteq> m" "v \<noteq> m"
  shows "countMark (put b row col v) m = countMark b m"
proof -
  have "filter (\<lambda>p. cell (put b row col v) (fst p) (snd p) = m) allCells
      = filter (\<lambda>p. cell b (fst p) (snd p) = m) allCells"
    using assms by (intro filter_cong) (auto simp: mem_allCells cell_put)
  then show ?thesis
    by (simp add: countMark_alt)
qed

lemma count_put_list:
  assumes "row < 3" "col < 3" "cell b row col \<noteq> m"
  shows "\<forall>p\<in>set cs. fst p < 3 \<and> snd p < 3 \<Longrightarrow> distinct cs \<Longrightarrow>
     length (filter (\<lambda>p. cell (put b row col m) (fst p) (snd p) = m) cs)
       = length (filter (\<lambda>p. cell b (fst p) (snd p) = m) cs)
         + (if (row, col) \<in> set cs then 1 else 0)"
proof (induction cs)
  case Nil
  then show ?case by simp
next
  case (Cons p cs)
  obtain i j where p: "p = (i, j)"
    by (cases p)
  from Cons.prems have ij: "i < 3" "j < 3"
    by (simp_all add: p)
  from Cons have IH: "length (filter (\<lambda>p. cell (put b row col m) (fst p) (snd p) = m) cs)
       = length (filter (\<lambda>p. cell b (fst p) (snd p) = m) cs)
         + (if (row, col) \<in> set cs then 1 else 0)"
    by simp
  from Cons.prems have notin: "(i, j) \<notin> set cs"
    by (simp add: p)
  show ?case
    using assms ij notin by (auto simp: p IH cell_put)
qed

lemma count_put_same:
  assumes "row < 3" "col < 3" "cell b row col \<noteq> m"
  shows "countMark (put b row col m) m = Suc (countMark b m)"
  using count_put_list [OF assms in_range_allCells distinct_allCells] assms(1,2)
  by (simp add: countMark_alt mem_allCells)

lemma countMark_emptyBoard: "m \<noteq> Empty \<Longrightarrow> countMark emptyBoard m = 0"
  by (auto simp: countMark_def allCells_eq emptyBoard_def cell_def)

section \<open>Reset and the cases of Update\<close>

lemma Reset_board: "fold (\<lambda>(i, j) b. put b i j Empty) allCells b = emptyBoard"
proof -
  obtain r0 r1 r2 where b: "b = (r0, r1, r2)"
    by (cases b)
  obtain a0 a1 a2 where r0: "r0 = (a0, a1, a2)"
    by (cases r0)
  obtain b0 b1 b2 where r1: "r1 = (b0, b1, b2)"
    by (cases r1)
  obtain c0 c1 c2 where r2: "r2 = (c0, c1, c2)"
    by (cases r2)
  show ?thesis
    by (simp add: b r0 r1 r2 allCells_eq put_def emptyBoard_def)
qed

lemma Reset_eq: "Reset g = g\<lparr>board := emptyBoard, currentTurn := X, state := Playing, aiDelay := 0\<rparr>"
  by (simp add: Reset_def Reset_board)

lemma Reset_NewGame: "Reset g = NewGame"
  by (simp add: Reset_eq NewGame_def)

lemma checkWin_emptyBoard: "\<not> checkWin emptyBoard"
  by (simp add: checkWin_same3 same3_def emptyBoard_def cell_def)

lemma checkDraw_emptyBoard: "\<not> checkDraw emptyBoard"
  by (auto simp: checkDraw_iff emptyBoard_def cell_def intro!: exI [of _ 0])

lemma Update_terminal:
  "state g \<noteq> Playing \<Longrightarrow> Update inp g = (if justPressed inp then Reset g else g)"
  by (simp add: Update_def)

lemma Update_human_ignored:
  "state g = Playing \<Longrightarrow> currentTurn g = X \<Longrightarrow> \<not> (justPressed inp \<and> clickValid inp g) \<Longrightarrow>
   Update inp g = g"
  by (auto simp: Update_def clickValid_def clickRow_def clickCol_def BoardSize_def Let_def)

lemma Update_human_move:
  "state g = Playing \<Longrightarrow> currentTurn g = X \<Longrightarrow> justPressed inp \<Longrightarrow> clickValid inp g \<Longrightarrow>
   Update inp g =
     settle (g\<lparr>board := put (board g) (nat (clickRow inp)) (nat (clickCol inp)) X\<rparr>) XWins O' 30"
  by (simp add: Update_def clickValid_def clickRow_def clickCol_def BoardSize_def Let_def
      settle_def)

lemma Update_ai_wait:
  "state g = Playing \<Longrightarrow> currentTurn g \<noteq> X \<Longrightarrow> aiDelay g > 0 \<Longrightarrow>
   Update inp g = g\<lparr>aiDelay := aiDelay g - 1\<rparr>"
  by (simp add: Update_def)

lemma Update_ai_move:
  "state g = Playing \<Longrightarrow> currentTurn g \<noteq> X \<Longrightarrow> \<not> aiDelay g > 0 \<Longrightarrow>
   Update inp g =
     settle (g\<lparr>board := makeAIMove (rngDraw inp) (board g)\<rparr>) OWins X (aiDelay g)"
  by (simp add: Update_def Let_def settle_def)

lemma settle_fields:
  "board (settle g1 won turn delay) = board g1"
  "state g1 = Playing \<Longrightarrow> won \<noteq> Playing \<Longrightarrow>
     state (settle g1 won turn delay) = Playing \<longleftrightarrow>
     \<not> checkWin (board g1) \<and> \<not> checkDraw (board g1)"
  "state g1 = Playing \<Longrightarrow> won \<noteq> Playing \<Longrightarrow>
     state (settle g1 won turn delay) = Playing \<Longrightarrow> currentTurn (settle g1 won turn delay) = turn"
  by (auto simp: settle_def split: if_splits)

section \<open>The invariant of the reachable games\<close>

lemma countsOk_settle:
  assumes "won \<noteq> Playing" "state g1 = Playing"
    and "if turn = X then countMark (board g1) X = countMark (board g1) O'
         else countMark (board g1) X = Suc (countMark (board g1) O')"
  shows "countsOk (settle g1 won turn delay)"
  using assms by (auto simp: countsOk_def settle_def split: if_splits)

lemma countsOk_NewGame: "countsOk NewGame"
  by (simp add: countsOk_def NewGame_def checkWin_emptyBoard checkDraw_emptyBoard
      countMark_emptyBoard)

lemma countsOk_Update:
  assumes "countsOk g"
  shows "countsOk (Update inp g)"
proof (cases "state g = Playing")
  case False
  then show ?thesis
    using assms by (simp add: Update_terminal Reset_NewGame countsOk_NewGame)
next
  case Playing: True
  show ?thesis
  proof (cases "currentTurn g = X")
    case turnX: True
    show ?thesis
    proof (cases "justPressed inp \<and> clickValid inp g")
      case False
      then show ?thesis
        using assms Playing turnX by (simp add: Update_human_ignored)
    next
      case True
      define row where "row = nat (clickRow inp)"
      define col where "col = nat (clickCol inp)"
      from True have rc: "row < 3" "col < 3" "cell (board g) row col = Empty"
        by (auto simp: clickValid_def row_def col_def)
      from assms Playing turnX have eq: "countMark (board g) X = countMark (board g) O'"
        by (simp add: countsOk_def)
      have "countMark (put (board g) row col X) X = Suc (countMark (put (board g) row col X) O')"
        using rc eq by (simp add: count_put_same count_put_other)
      then have "countsOk (settle (g\<lparr>board := put (board g) row col X\<rparr>) XWins O' 30)"
        using Playing by (intro countsOk_settle) simp_all
      then show ?thesis
        using True Playing turnX by (simp add: Update_human_move row_def col_def)
    qed
  next
    case turnO: False
    show ?thesis
    proof (cases "aiDelay g > 0")
      case True
      then show ?thesis
        using assms Playing turnO by (simp add: Update_ai_wait countsOk_def)
    next
      case False
      from assms Playing turnO have eq: "countMark (board g) X = Suc (countMark (board g) O')"
        and "\<not> checkDraw (board g)"
        by (simp_all add: countsOk_def)
      then have "\<exists>i<3. \<exists>j<3. cell (board g) i j = Empty"
        by (simp add: checkDraw_iff)
      then obtain row col where rc: "row < 3" "col < 3" "cell (board g) row col = Empty"
        and mv: "makeAIMove (rngDraw inp) (board g) = put (board g) row col O'"
        using makeAIMove_places [of "board g" "rngDraw inp"] by blast
      have "countMark (put (board g) row col O') X = countMark (put (board g) row col O') O'"
        using rc eq by (simp add: count_put_same count_put_other)
      then have "countsOk (settle (g\<lparr>board := makeAIMove (rngDraw inp) (board g)\<rparr>) OWins X (aiDelay g))"
        using Playing mv by (intro countsOk_settle) simp_all
      then show ?thesis
        using False Playing turnO by (simp add: Update_ai_move)
    qed
  qed
qed

lemma reachable_countsOk: "reachable g \<Longrightarrow> countsOk g"
  by (induction rule: reachable.induct)
    (simp_all add: countsOk_NewGame countsOk_Update Reset_NewGame)

lemma reachable_Playing_no_line:
  assumes "reachable g" "state g = Playing"
  shows "\<not> hasLine (board g) X \<and> \<not> hasLine (board g) O'"
  using reachable_countsOk [OF assms(1)] assms(2)
  by (simp add: countsOk_def checkWin_hasLine)

lemma reachable_funpow: "reachable g \<Longrightarrow> reachable ((Update inp ^^ n) g)"
  by (induction n) (simp_all add: reachable.step)

lemma wait_frames:
  "state g = Playing \<Longrightarrow> currentTurn g \<noteq> X \<Longrightarrow> aiDelay g = int n \<Longrightarrow>
   (Update inp ^^ n) g = g\<lparr>aiDelay := 0\<rparr>"
proof (induction n arbitrary: g)
  case 0
  then show ?case by simp
next
  case (Suc n)
  have "Update inp g = g\<lparr>aiDelay := int n\<rparr>"
    using Suc.prems by (simp add: Update_ai_wait)
  moreover have "(Update inp ^^ n) (g\<lparr>aiDelay := int n\<rparr>) = g\<lparr>aiDelay := int n\<rparr>\<lparr>aiDelay := 0\<rparr>"
    using Suc.prems by (intro Suc.IH) simp_all
  ultimately show ?case
    by (simp add: funpow_swap1)
qed

section \<open>The claims\<close>

subsection \<open>C1: what checkWin recognises\<close>

text \<open>
  C1, as the code has it. \<^verbatim>\<open>checkWin\<close> takes no mark: on every board it returns true
  exactly when some row, column or diagonal is entirely \<^verbatim>\<open>X\<close> or entirely \<^verbatim>\<open>O\<close>.
  So for a mark whose opponent has no complete line, it returns true exactly when some
  row, column or diagonal is entirely that mark.
\<close>

theorem checkWin_iff_some_line:
  "(checkWin b \<longleftrightarrow> hasLine b X \<or> hasLine b O')
   \<and> (\<not> hasLine b O' \<longrightarrow> (checkWin b \<longleftrightarrow> hasLine b X))
   \<and> (\<not> hasLine b X \<longrightarrow> (checkWin b \<longleftrightarrow> hasLine b O'))"
  using checkWin_hasLine [of b] by blast

text \<open>
  A diagonal of \<^verbatim>\<open>X\<close> and no line of \<^verbatim>\<open>O\<close>: \<^verbatim>\<open>checkWin\<close> is true.
\<close>

theorem checkWin_iff_some_line_witness:
  "checkWin ((X, Empty, O'), (O', X, Empty), (Empty, Empty, X))
   \<and> hasLine ((X, Empty, O'), (O', X, Empty), (Empty, Empty, X)) X"
proof -
  let ?b = "((X, Empty, O'), (O', X, Empty), (Empty, Empty, X))"
  have h: "\<not> hasLine ?b O'"
    by code_simp
  have w: "checkWin ?b"
    by code_simp
  show ?thesis
    using checkWin_iff_some_line [of ?b] h w by blast
qed

text \<open>
  Read for the mark \<^verbatim>\<open>X\<close>, the equivalence fails on a board whose top row is
  entirely \<^verbatim>\<open>O\<close>: \<^verbatim>\<open>checkWin\<close> is true there and no line is entirely \<^verbatim>\<open>X\<close>.
\<close>

theorem checkWin_ignores_mark_counterexample:
  "\<not> (checkWin ((O', O', O'), (Empty, Empty, Empty), (Empty, Empty, Empty))
        \<longleftrightarrow> hasLine ((O', O', O'), (Empty, Empty, Empty), (Empty, Empty, Empty)) X)"
  by code_simp

subsection \<open>C2: the AI takes the first winning cell\<close>

text \<open>
  C2. \<^verbatim>\<open>makeAIMove\<close> is only called while the game is \<^verbatim>\<open>Playing\<close>, and then no row,
  column or diagonal is complete. On every such board, and so on the board of every
  reachable game that is \<^verbatim>\<open>Playing\<close>, if some empty cell completes a line of \<^verbatim>\<open>O\<close>
  then \<^verbatim>\<open>makeAIMove\<close> places \<^verbatim>\<open>O\<close> in the first such cell in row-major order,
  whatever the random draw and whether or not the center is free.
\<close>

theorem makeAIMove_takes_first_win:
  "(\<not> hasLine b X \<and> \<not> hasLine b O' \<and> firstCompleting b = Some (row, col)
      \<longrightarrow> makeAIMove rnd b = put b row col O')
   \<and> (reachable g \<and> state g = Playing \<and> firstCompleting (board g) = Some (row, col)
      \<longrightarrow> makeAIMove rnd (board g) = put (board g) row col O')"
proof (intro conjI impI)
  assume "\<not> hasLine b X \<and> \<not> hasLine b O' \<and> firstCompleting b = Some (row, col)"
  then show "makeAIMove rnd b = put b row col O'"
    by (simp add: makeAIMove_eq find_winsAt_completesLine)
next
  assume a: "reachable g \<and> state g = Playing \<and> firstCompleting (board g) = Some (row, col)"
  then have "\<not> hasLine (board g) X" and "\<not> hasLine (board g) O'"
    using reachable_Playing_no_line [of g] by simp_all
  with a show "makeAIMove rnd (board g) = put (board g) row col O'"
    by (simp add: makeAIMove_eq find_winsAt_completesLine)
qed

text \<open>
  The example of the specification: row 0 is \<^verbatim>\<open>[O, O, Empty]\<close>, every other cell is
  empty, and the AI plays (0,2). And a game that is played: the human takes (0,0), the AI
  waits 30 frames and takes the center, the human takes (0,1), the AI waits and its draw
  gives (0,2), the human takes (1,0); now (2,0) completes the diagonal of \<^verbatim>\<open>O\<close>, and the
  AI plays it.
\<close>

theorem makeAIMove_takes_first_win_witness:
  "makeAIMove 7 ((O', O', Empty), (Empty, Empty, Empty), (Empty, Empty, Empty))
     = ((O', O', O'), (Empty, Empty, Empty), (Empty, Empty, Empty))
   \<and> board (Update \<lparr>justPressed = True, cursorX = 10, cursorY = 250, rngDraw = 0\<rparr>
        (Update \<lparr>justPressed = False, cursorX = 0, cursorY = 0, rngDraw = 0\<rparr>
          ((Update \<lparr>justPressed = False, cursorX = 0, cursorY = 0, rngDraw = 0\<rparr> ^^ 30)
            (Update \<lparr>justPressed = True, cursorX = 250, cursorY = 10, rngDraw = 0\<rparr>
              (Update \<lparr>justPressed = False, cursorX = 0, cursorY = 0, rngDraw = 0\<rparr>
                ((Update \<lparr>justPressed = False, cursorX = 0, cursorY = 0, rngDraw = 0\<rparr> ^^ 30)
                  (Update \<lparr>justPressed = True, cursorX = 10, cursorY = 10, rngDraw = 0\<rparr>
                    NewGame)))))))
     = ((X, X, O'), (X, O', Empty), (Empty, Empty, Empty))
   \<and> makeAIMove 5 ((X, X, O'), (X, O', Empty), (Empty, Empty, Empty))
     = ((X, X, O'), (X, O', Empty), (O', Empty, Empty))"
proof -
  let ?b = "((O', O', Empty), (Empty, Empty, Empty), (Empty, Empty, Empty))"
  let ?w = "\<lparr>justPressed = False, cursorX = 0, cursorY = 0, rngDraw = 0\<rparr>"
  let ?c1 = "\<lparr>justPressed = True, cursorX = 10, cursorY = 10, rngDraw = 0\<rparr>"
  let ?c2 = "\<lparr>justPressed = True, cursorX = 250, cursorY = 10, rngDraw = 0\<rparr>"
  let ?c3 = "\<lparr>justPressed = True, cursorX = 10, cursorY = 250, rngDraw = 0\<rparr>"
  let ?g = "Update ?c3 (Update ?w ((Update ?w ^^ 30) (Update ?c2 (Update ?w
      ((Update ?w ^^ 30) (Update ?c1 NewGame))))))"
  let ?G1 = "\<lparr>board = ((X, Empty, Empty), (Empty, Empty, Empty), (Empty, Empty, Empty)),
      currentTurn = O', state = Playing, aiDelay = 30\<rparr>"
  let ?G2 = "\<lparr>board = ((X, Empty, Empty), (Empty, O', Empty), (Empty, Empty, Empty)),
      currentTurn = X, state = Playing, aiDelay = 0\<rparr>"
  let ?G3 = "\<lparr>board = ((X, X, Empty), (Empty, O', Empty), (Empty, Empty, Empty)),
      currentTurn = O', state = Playing, aiDelay = 30\<rparr>"
  let ?G4 = "\<lparr>board = ((X, X, O'), (Empty, O', Empty), (Empty, Empty, Empty)),
      currentTurn = X, state = Playing, aiDelay = 0\<rparr>"
  let ?G5 = "\<lparr>board = ((X, X, O'), (X, O', Empty), (Empty, Empty, Empty)),
      currentTurn = O', state = Playing, aiDelay = 30\<rparr>"
  have e1: "Update ?c1 NewGame = ?G1"
    by code_simp
  have e2: "(Update ?w ^^ 30) ?G1 = ?G1\<lparr>aiDelay := 0\<rparr>"
    by (rule wait_frames) simp_all
  have e3: "Update ?w (?G1\<lparr>aiDelay := 0\<rparr>) = ?G2"
    by code_simp
  have e4: "Update ?c2 ?G2 = ?G3"
    by code_simp
  have e5: "(Update ?w ^^ 30) ?G3 = ?G3\<lparr>aiDelay := 0\<rparr>"
    by (rule wait_frames) simp_all
  have e6: "Update ?w (?G3\<lparr>aiDelay := 0\<rparr>) = ?G4"
    by code_simp
  have e7: "Update ?c3 ?G4 = ?G5"
    by code_simp
  have g: "?g = ?G5"
    by (simp only: e1 e2 e3 e4 e5 e6 e7)
  have h1: "\<not> hasLine ?b X \<and> \<not> hasLine ?b O' \<and> firstCompleting ?b = Some (0, 2)"
    by code_simp
  have r: "reachable ?g"
    by (intro reachable.step reachable_funpow reachable.init)
  have "firstCompleting ((X, X, O'), (X, O', Empty), (Empty, Empty, Empty)) = Some (2, 0)"
    by code_simp
  with r have h2: "reachable ?g \<and> state ?g = Playing \<and> firstCompleting (board ?g) = Some (2, 0)"
    by (simp add: g)
  show ?thesis
    using makeAIMove_takes_first_win [of ?b 0 2 7 ?g] h1
      makeAIMove_takes_first_win [of ?b 2 0 5 ?g] h2
    by (simp add: g put_def)
qed

subsection \<open>C7: the AI takes the center\<close>

text \<open>
  C7. \<^verbatim>\<open>makeAIMove\<close> is only called while the game is \<^verbatim>\<open>Playing\<close>, and then no row,
  column or diagonal is complete. On every such board, and so on the board of every
  reachable game that is \<^verbatim>\<open>Playing\<close>, if no placement of \<^verbatim>\<open>O\<close> completes a line and
  the center (1,1) is empty, then \<^verbatim>\<open>makeAIMove\<close> places \<^verbatim>\<open>O\<close> at (1,1), whatever the
  random draw.
\<close>

theorem makeAIMove_takes_center:
  "(\<not> hasLine b X \<and> \<not> hasLine b O' \<and> firstCompleting b = None \<and> cell b 1 1 = Empty
      \<longrightarrow> makeAIMove rnd b = put b 1 1 O')
   \<and> (reachable g \<and> state g = Playing \<and> firstCompleting (board g) = None
        \<and> cell (board g) 1 1 = Empty
      \<longrightarrow> makeAIMove rnd (board g) = put (board g) 1 1 O')"
proof (intro conjI impI)
  assume "\<not> hasLine b X \<and> \<not> hasLine b O' \<and> firstCompleting b = None \<and> cell b 1 1 = Empty"
  then show "makeAIMove rnd b = put b 1 1 O'"
    by (simp add: makeAIMove_eq find_winsAt_completesLine)
next
  assume a: "reachable g \<and> state g = Playing \<and> firstCompleting (board g) = None
        \<and> cell (board g) 1 1 = Empty"
  then have "\<not> hasLine (board g) X" and "\<not> hasLine (board g) O'"
    using reachable_Playing_no_line [of g] by simp_all
  with a show "makeAIMove rnd (board g) = put (board g) 1 1 O'"
    by (simp add: makeAIMove_eq find_winsAt_completesLine)
qed

text \<open>
  On the empty board the AI plays the center; and so it does in the game after the
  human's first move, at (0,0).
\<close>

theorem makeAIMove_takes_center_witness:
  "makeAIMove 5 emptyBoard = ((Empty, Empty, Empty), (Empty, O', Empty), (Empty, Empty, Empty))
   \<and> board (Update \<lparr>justPressed = True, cursorX = 10, cursorY = 10, rngDraw = 0\<rparr> NewGame)
     = ((X, Empty, Empty), (Empty, Empty, Empty), (Empty, Empty, Empty))
   \<and> makeAIMove 2 ((X, Empty, Empty), (Empty, Empty, Empty), (Empty, Empty, Empty))
     = ((X, Empty, Empty), (Empty, O', Empty), (Empty, Empty, Empty))"
proof -
  let ?g = "Update \<lparr>justPressed = True, cursorX = 10, cursorY = 10, rngDraw = 0\<rparr> NewGame"
  have h1: "\<not> hasLine emptyBoard X \<and> \<not> hasLine emptyBoard O'
      \<and> firstCompleting emptyBoard = None \<and> cell emptyBoard 1 1 = Empty"
    by code_simp
  have r: "reachable ?g"
    by (intro reachable.step reachable.init)
  have g: "?g = \<lparr>board = ((X, Empty, Empty), (Empty, Empty, Empty), (Empty, Empty, Empty)),
      currentTurn = O', state = Playing, aiDelay = 30\<rparr>"
    by code_simp
  have "firstCompleting ((X, Empty, Empty), (Empty, Empty, Empty), (Empty, Empty, Empty)) = None
      \<and> cell ((X, Empty, Empty), (Empty, Empty, Empty), (Empty, Empty, Empty)) 1 1 = Empty"
    by code_simp
  with r have h2: "reachable ?g \<and> state ?g = Playing \<and> firstCompleting (board ?g) = None
      \<and> cell (board ?g) 1 1 = Empty"
    by (simp add: g)
  show ?thesis
    using makeAIMove_takes_center [of emptyBoard 5 ?g] h1
      makeAIMove_takes_center [of emptyBoard 2 ?g] h2
    by (simp add: g put_def emptyBoard_def)
qed

subsection \<open>C9: the fallback picks an empty cell\<close>

text \<open>
  C9. On every board with an empty cell, on which no placement of \<^verbatim>\<open>O\<close> completes a
  line and whose center is occupied, the cell in which \<^verbatim>\<open>makeAIMove\<close> places \<^verbatim>\<open>O\<close>
  was empty, for every random draw.
\<close>

theorem makeAIMove_fallback_picks_empty:
  assumes "\<exists>i<3. \<exists>j<3. cell b i j = Empty"
    and "firstCompleting b = None"
    and "cell b 1 1 \<noteq> Empty"
  shows "\<exists>row<3. \<exists>col<3. cell b row col = Empty \<and> makeAIMove rnd b = put b row col O'"
  using assms(1) by (rule makeAIMove_places)

text \<open>
  Only the center is occupied; the draw is 3.
\<close>

theorem makeAIMove_fallback_picks_empty_witness:
  "\<exists>row<3. \<exists>col<3.
     cell ((Empty, Empty, Empty), (Empty, X, Empty), (Empty, Empty, Empty)) row col = Empty
     \<and> makeAIMove 3 ((Empty, Empty, Empty), (Empty, X, Empty), (Empty, Empty, Empty))
         = put ((Empty, Empty, Empty), (Empty, X, Empty), (Empty, Empty, Empty)) row col O'"
proof -
  let ?b = "((Empty, Empty, Empty), (Empty, X, Empty), (Empty, Empty, Empty))"
  have "\<not> checkDraw ?b"
    by code_simp
  then have h1: "\<exists>i<3. \<exists>j<3. cell ?b i j = Empty"
    by (simp add: checkDraw_iff)
  have h2: "firstCompleting ?b = None"
    by code_simp
  have h3: "cell ?b 1 1 \<noteq> Empty"
    by code_simp
  show ?thesis
    using makeAIMove_fallback_picks_empty [OF h1 h2 h3] .
qed

subsection \<open>C10: the AI changes at most one cell\<close>

text \<open>
  C10. When the first loop of \<^verbatim>\<open>makeAIMove\<close> ends without returning, every
  hypothetical placement has been undone. On a full board \<^verbatim>\<open>makeAIMove\<close> changes
  nothing. On a board with an empty cell it turns exactly one empty cell into \<^verbatim>\<open>O\<close>
  and leaves every other cell as it was.
\<close>

theorem makeAIMove_changes_one_cell:
  "(\<not> fst (tryWin b allCells) \<longrightarrow> snd (tryWin b allCells) = b)
   \<and> ((\<forall>i<3. \<forall>j<3. cell b i j \<noteq> Empty) \<longrightarrow> makeAIMove rnd b = b)
   \<and> ((\<exists>i<3. \<exists>j<3. cell b i j = Empty) \<longrightarrow>
        (\<exists>row<3. \<exists>col<3. cell b row col = Empty
           \<and> makeAIMove rnd b = put b row col O'
           \<and> cell (makeAIMove rnd b) row col = O'
           \<and> (\<forall>i<3. \<forall>j<3. (i, j) \<noteq> (row, col) \<longrightarrow>
                 cell (makeAIMove rnd b) i j = cell b i j)))"
proof (intro conjI impI)
  assume "\<not> fst (tryWin b allCells)"
  then show "snd (tryWin b allCells) = b"
    by (simp add: tryWin_allCells split: option.splits)
next
  assume "\<forall>i<3. \<forall>j<3. cell b i j \<noteq> Empty"
  then show "makeAIMove rnd b = b"
    by (rule makeAIMove_full)
next
  assume "\<exists>i<3. \<exists>j<3. cell b i j = Empty"
  then obtain row col where rc: "row < 3" "col < 3" "cell b row col = Empty"
    and mv: "makeAIMove rnd b = put b row col O'"
    using makeAIMove_places [of b rnd] by blast
  have "cell (makeAIMove rnd b) row col = O'"
    using rc by (simp add: mv cell_put)
  moreover have "\<forall>i<3. \<forall>j<3. (i, j) \<noteq> (row, col) \<longrightarrow> cell (makeAIMove rnd b) i j = cell b i j"
    using rc by (simp add: mv cell_put)
  ultimately show "\<exists>row<3. \<exists>col<3. cell b row col = Empty
           \<and> makeAIMove rnd b = put b row col O'
           \<and> cell (makeAIMove rnd b) row col = O'
           \<and> (\<forall>i<3. \<forall>j<3. (i, j) \<noteq> (row, col) \<longrightarrow>
                 cell (makeAIMove rnd b) i j = cell b i j)"
    using rc mv by blast
qed

text \<open>
  A full board, and a board with four empty cells.
\<close>

theorem makeAIMove_changes_one_cell_witness:
  "makeAIMove 4 ((X, O', X), (X, O', O'), (O', X, X)) = ((X, O', X), (X, O', O'), (O', X, X))
   \<and> (\<exists>row<3. \<exists>col<3.
        cell ((X, O', X), (Empty, X, Empty), (O', Empty, Empty)) row col = Empty
        \<and> makeAIMove 4 ((X, O', X), (Empty, X, Empty), (O', Empty, Empty))
            = put ((X, O', X), (Empty, X, Empty), (O', Empty, Empty)) row col O')"
proof -
  let ?full = "((X, O', X), (X, O', O'), (O', X, X))"
  let ?b = "((X, O', X), (Empty, X, Empty), (O', Empty, Empty))"
  have "checkDraw ?full"
    by code_simp
  then have h1: "\<forall>i<3. \<forall>j<3. cell ?full i j \<noteq> Empty"
    by (simp only: checkDraw_iff)
  have "\<not> checkDraw ?b"
    by code_simp
  then have h2: "\<exists>i<3. \<exists>j<3. cell ?b i j = Empty"
    by (simp add: checkDraw_iff)
  show ?thesis
    using makeAIMove_changes_one_cell [of ?full 4] makeAIMove_changes_one_cell [of ?b 4] h1 h2
    by blast
qed

subsection \<open>C3: a click on an invalid cell is ignored\<close>

text \<open>
  C3. While playing, on the human's turn, a click whose row or column is outside 0..2
  or whose cell is occupied leaves the board, the state and the turn unchanged (and the
  delay counter as well). \<^verbatim>\<open>Update\<close> returns the nil error on every path, so there is
  no error to report.
\<close>

theorem invalid_click_ignored:
  assumes "state g = Playing" and "currentTurn g = X" and "justPressed inp"
    and "clickRow inp < 0 \<or> 3 \<le> clickRow inp \<or> clickCol inp < 0 \<or> 3 \<le> clickCol inp
         \<or> cell (board g) (nat (clickRow inp)) (nat (clickCol inp)) \<noteq> Empty"
  shows "board (Update inp g) = board g \<and> state (Update inp g) = state g
         \<and> currentTurn (Update inp g) = currentTurn g \<and> aiDelay (Update inp g) = aiDelay g"
proof -
  have "\<not> clickValid inp g"
    using assms(4) by (auto simp: clickValid_def)
  then have "Update inp g = g"
    using assms(1,2) by (simp add: Update_human_ignored)
  then show ?thesis
    by simp
qed

text \<open>
  A click on the occupied cell (1,0), and a click at column 3.
\<close>

theorem invalid_click_ignored_witness:
  "board (Update \<lparr>justPressed = True, cursorX = 10, cursorY = 250, rngDraw = 0\<rparr>
       \<lparr>board = ((X, Empty, Empty), (X, O', Empty), (Empty, Empty, O')),
        currentTurn = X, state = Playing, aiDelay = 0\<rparr>)
     = ((X, Empty, Empty), (X, O', Empty), (Empty, Empty, O'))
   \<and> currentTurn (Update \<lparr>justPressed = True, cursorX = 700, cursorY = -5, rngDraw = 0\<rparr>
       \<lparr>board = ((X, Empty, Empty), (X, O', Empty), (Empty, Empty, O')),
        currentTurn = X, state = Playing, aiDelay = 0\<rparr>) = X"
proof -
  let ?g = "\<lparr>board = ((X, Empty, Empty), (X, O', Empty), (Empty, Empty, O')),
        currentTurn = X, state = Playing, aiDelay = 0\<rparr>"
  let ?occupied = "\<lparr>justPressed = True, cursorX = 10, cursorY = 250, rngDraw = 0\<rparr>"
  let ?outside = "\<lparr>justPressed = True, cursorX = 700, cursorY = -5, rngDraw = 0\<rparr>"
  have r1: "clickRow ?occupied = 1" and c1: "clickCol ?occupied = 0"
    by (simp_all add: clickRow_def clickCol_def go_div_def CellSize_def ScreenWidth_def
        BoardSize_def)
  have c2: "clickCol ?outside = 3"
    by (simp add: clickCol_def go_div_def CellSize_def ScreenWidth_def BoardSize_def)
  have h1: "clickRow ?occupied < 0 \<or> 3 \<le> clickRow ?occupied \<or> clickCol ?occupied < 0
         \<or> 3 \<le> clickCol ?occupied
         \<or> cell (board ?g) (nat (clickRow ?occupied)) (nat (clickCol ?occupied)) \<noteq> Empty"
    by (simp add: r1 c1 cell_def)
  have h2: "clickRow ?outside < 0 \<or> 3 \<le> clickRow ?outside \<or> clickCol ?outside < 0
         \<or> 3 \<le> clickCol ?outside
         \<or> cell (board ?g) (nat (clickRow ?outside)) (nat (clickCol ?outside)) \<noteq> Empty"
    by (simp add: c2)
  show ?thesis
    using invalid_click_ignored [of ?g ?occupied, OF _ _ _ h1]
      invalid_click_ignored [of ?g ?outside, OF _ _ _ h2]
    by simp
qed

subsection \<open>C4: the counts of the two marks\<close>

text \<open>
  C4. In every reachable game, the number of cells that hold \<^verbatim>\<open>X\<close> minus the number
  that hold \<^verbatim>\<open>O\<close> is 0 or 1.
\<close>

theorem reachable_count_difference:
  assumes "reachable g"
  shows "0 \<le> int (countMark (board g) X) - int (countMark (board g) O')
         \<and> int (countMark (board g) X) - int (countMark (board g) O') \<le> 1"
  using reachable_countsOk [OF assms] by (auto simp: countsOk_def split: if_splits)

text \<open>
  The game after the human's first click, at (0,2).
\<close>

theorem reachable_count_difference_witness:
  "reachable (Update \<lparr>justPressed = True, cursorX = 450, cursorY = 30, rngDraw = 0\<rparr> NewGame)
   \<and> 0 \<le> int (countMark (board (Update \<lparr>justPressed = True, cursorX = 450, cursorY = 30,
                  rngDraw = 0\<rparr> NewGame)) X)
          - int (countMark (board (Update \<lparr>justPressed = True, cursorX = 450, cursorY = 30,
                  rngDraw = 0\<rparr> NewGame)) O')
   \<and> int (countMark (board (Update \<lparr>justPressed = True, cursorX = 450, cursorY = 30,
                  rngDraw = 0\<rparr> NewGame)) X)
          - int (countMark (board (Update \<lparr>justPressed = True, cursorX = 450, cursorY = 30,
                  rngDraw = 0\<rparr> NewGame)) O') \<le> 1"
proof -
  have r: "reachable (Update \<lparr>justPressed = True, cursorX = 450, cursorY = 30, rngDraw = 0\<rparr> NewGame)"
    by (rule reachable.step [OF reachable.init])
  show ?thesis
    using r reachable_count_difference [OF r] by simp
qed

subsection \<open>C5: terminal states\<close>

text \<open>
  C5. In a terminal state \<^verbatim>\<open>Update\<close> changes nothing unless the button was just
  pressed; then it resets, and the reset game has the empty board, the turn \<^verbatim>\<open>X\<close> and
  the state \<^verbatim>\<open>Playing\<close>.
\<close>

theorem terminal_only_reset:
  assumes "state g \<noteq> Playing"
  shows "Update inp g = (if justPressed inp then Reset g else g)
         \<and> board (Reset g) = emptyBoard \<and> currentTurn (Reset g) = X
         \<and> state (Reset g) = Playing"
  using assms by (simp add: Update_terminal Reset_eq)

text \<open>
  A game that \<^verbatim>\<open>X\<close> has won, without and with a click.
\<close>

theorem terminal_only_reset_witness:
  "Update \<lparr>justPressed = False, cursorX = 10, cursorY = 10, rngDraw = 2\<rparr>
       \<lparr>board = ((X, X, X), (O', O', Empty), (Empty, Empty, Empty)),
        currentTurn = X, state = XWins, aiDelay = 0\<rparr>
     = \<lparr>board = ((X, X, X), (O', O', Empty), (Empty, Empty, Empty)),
        currentTurn = X, state = XWins, aiDelay = 0\<rparr>
   \<and> Update \<lparr>justPressed = True, cursorX = 10, cursorY = 10, rngDraw = 2\<rparr>
       \<lparr>board = ((X, X, X), (O', O', Empty), (Empty, Empty, Empty)),
        currentTurn = X, state = XWins, aiDelay = 0\<rparr>
     = \<lparr>board = ((Empty, Empty, Empty), (Empty, Empty, Empty), (Empty, Empty, Empty)),
        currentTurn = X, state = Playing, aiDelay = 0\<rparr>"
proof -
  let ?g = "\<lparr>board = ((X, X, X), (O', O', Empty), (Empty, Empty, Empty)),
        currentTurn = X, state = XWins, aiDelay = 0\<rparr>"
  have h: "state ?g \<noteq> Playing"
    by simp
  show ?thesis
    using terminal_only_reset [OF h, of "\<lparr>justPressed = False, cursorX = 10, cursorY = 10, rngDraw = 2\<rparr>"]
      terminal_only_reset [OF h, of "\<lparr>justPressed = True, cursorX = 10, cursorY = 10, rngDraw = 2\<rparr>"]
    by (simp add: Reset_eq emptyBoard_def)
qed

subsection \<open>C6: the turn alternates\<close>

text \<open>
  C6. When \<^verbatim>\<open>Update\<close> applies a move while playing (the board changes) and the game
  is still playing afterwards, the move put the mover's mark into an empty cell and the
  turn is now the other mark's: after \<^verbatim>\<open>X\<close> it is \<^verbatim>\<open>O\<close>, after \<^verbatim>\<open>O\<close> it is
  \<^verbatim>\<open>X\<close>.
\<close>

theorem turn_alternates:
  assumes "state g = Playing" and "state (Update inp g) = Playing"
    and "board (Update inp g) \<noteq> board g"
  shows "\<exists>row<3. \<exists>col<3. cell (board g) row col = Empty \<and>
          (currentTurn g = X \<and> board (Update inp g) = put (board g) row col X
             \<and> currentTurn (Update inp g) = O'
           \<or> currentTurn g \<noteq> X \<and> board (Update inp g) = put (board g) row col O'
             \<and> currentTurn (Update inp g) = X)"
proof (cases "currentTurn g = X")
  case turnX: True
  have valid: "justPressed inp \<and> clickValid inp g"
  proof (rule ccontr)
    assume "\<not> (justPressed inp \<and> clickValid inp g)"
    with assms(1) turnX have "Update inp g = g"
      by (rule Update_human_ignored)
    with assms(3) show False
      by simp
  qed
  define row where "row = nat (clickRow inp)"
  define col where "col = nat (clickCol inp)"
  from valid have rc: "row < 3" "col < 3" "cell (board g) row col = Empty"
    by (auto simp: clickValid_def row_def col_def)
  have upd: "Update inp g = settle (g\<lparr>board := put (board g) row col X\<rparr>) XWins O' 30"
    using assms(1) turnX valid by (simp add: Update_human_move row_def col_def)
  have "board (Update inp g) = put (board g) row col X"
    by (simp add: upd settle_fields)
  moreover have "currentTurn (Update inp g) = O'"
    using assms(1,2) unfolding upd by (intro settle_fields(3)) simp_all
  ultimately show ?thesis
    using rc turnX by blast
next
  case turnO: False
  have nowait: "\<not> aiDelay g > 0"
  proof
    assume "aiDelay g > 0"
    with assms(1) turnO have "Update inp g = g\<lparr>aiDelay := aiDelay g - 1\<rparr>"
      by (rule Update_ai_wait)
    with assms(3) show False
      by simp
  qed
  have upd: "Update inp g = settle (g\<lparr>board := makeAIMove (rngDraw inp) (board g)\<rparr>) OWins X (aiDelay g)"
    using assms(1) turnO nowait by (simp add: Update_ai_move)
  have b: "board (Update inp g) = makeAIMove (rngDraw inp) (board g)"
    by (simp add: upd settle_fields)
  have "\<exists>i<3. \<exists>j<3. cell (board g) i j = Empty"
    using assms(3) b makeAIMove_full [of "board g" "rngDraw inp"] by auto
  then obtain row col where rc: "row < 3" "col < 3" "cell (board g) row col = Empty"
    and mv: "makeAIMove (rngDraw inp) (board g) = put (board g) row col O'"
    using makeAIMove_places [of "board g" "rngDraw inp"] by blast
  have "currentTurn (Update inp g) = X"
    using assms(1,2) unfolding upd by (intro settle_fields(3)) simp_all
  then show ?thesis
    using rc turnO b mv by auto
qed

text \<open>
  The human's first move, and the AI's answer to it.
\<close>

theorem turn_alternates_witness:
  "currentTurn (Update \<lparr>justPressed = True, cursorX = 450, cursorY = 30, rngDraw = 0\<rparr> NewGame) = O'
   \<and> currentTurn (Update \<lparr>justPressed = False, cursorX = 0, cursorY = 0, rngDraw = 6\<rparr>
        \<lparr>board = ((Empty, Empty, X), (Empty, Empty, Empty), (Empty, Empty, Empty)),
         currentTurn = O', state = Playing, aiDelay = 0\<rparr>) = X"
proof -
  let ?f = "\<lparr>justPressed = True, cursorX = 450, cursorY = 30, rngDraw = 0\<rparr>"
  let ?f' = "\<lparr>justPressed = False, cursorX = 0, cursorY = 0, rngDraw = 6\<rparr>"
  let ?g = "\<lparr>board = ((Empty, Empty, X), (Empty, Empty, Empty), (Empty, Empty, Empty)),
         currentTurn = O', state = Playing, aiDelay = 0\<rparr>"
  have u1: "Update ?f NewGame
      = \<lparr>board = ((Empty, Empty, X), (Empty, Empty, Empty), (Empty, Empty, Empty)),
         currentTurn = O', state = Playing, aiDelay = 30\<rparr>"
    by code_simp
  have u2: "Update ?f' ?g
      = \<lparr>board = ((Empty, Empty, X), (Empty, O', Empty), (Empty, Empty, Empty)),
         currentTurn = X, state = Playing, aiDelay = 0\<rparr>"
    by code_simp
  have a1: "state NewGame = Playing" and a2: "state (Update ?f NewGame) = Playing"
    and a3: "board (Update ?f NewGame) \<noteq> board NewGame"
    by (simp_all add: u1) (simp_all add: NewGame_def emptyBoard_def)
  have b1: "state ?g = Playing" and b2: "state (Update ?f' ?g) = Playing"
    and b3: "board (Update ?f' ?g) \<noteq> board ?g"
    by (simp_all add: u2)
  show ?thesis
    using turn_alternates [OF a1 a2 a3] turn_alternates [OF b1 b2 b3]
    by (auto simp: NewGame_def)
qed

subsection \<open>C8: a full board without a line is a draw\<close>

text \<open>
  C8. \<^verbatim>\<open>checkDraw\<close> is true exactly when no cell is empty; and when a move applied by
  \<^verbatim>\<open>Update\<close> while playing fills the board without a line of either mark, the state
  becomes \<^verbatim>\<open>Draw\<close>.
\<close>

theorem draw_when_board_fills:
  "(checkDraw b \<longleftrightarrow> (\<forall>i<3. \<forall>j<3. cell b i j \<noteq> Empty))
   \<and> (state g = Playing \<and> board (Update inp g) \<noteq> board g
        \<and> (\<forall>i<3. \<forall>j<3. cell (board (Update inp g)) i j \<noteq> Empty)
        \<and> \<not> hasLine (board (Update inp g)) X \<and> \<not> hasLine (board (Update inp g)) O'
      \<longrightarrow> state (Update inp g) = Draw)"
proof (intro conjI impI)
  show "checkDraw b \<longleftrightarrow> (\<forall>i<3. \<forall>j<3. cell b i j \<noteq> Empty)"
    by (rule checkDraw_iff)
next
  assume a: "state g = Playing \<and> board (Update inp g) \<noteq> board g
        \<and> (\<forall>i<3. \<forall>j<3. cell (board (Update inp g)) i j \<noteq> Empty)
        \<and> \<not> hasLine (board (Update inp g)) X \<and> \<not> hasLine (board (Update inp g)) O'"
  then have playing: "state g = Playing" and changed: "board (Update inp g) \<noteq> board g"
    and full: "checkDraw (board (Update inp g))" and nowin: "\<not> checkWin (board (Update inp g))"
    by (simp_all add: checkDraw_iff checkWin_hasLine)
  have settled: "state g1 = Playing \<Longrightarrow> Update inp g = settle g1 won turn delay \<Longrightarrow>
      state (Update inp g) = Draw" for g1 won turn delay
    using full nowin by (simp add: settle_def split: if_splits)
  show "state (Update inp g) = Draw"
  proof (cases "currentTurn g = X")
    case turnX: True
    have valid: "justPressed inp \<and> clickValid inp g"
    proof (rule ccontr)
      assume "\<not> (justPressed inp \<and> clickValid inp g)"
      with playing turnX have "Update inp g = g"
        by (rule Update_human_ignored)
      with changed show False
        by simp
    qed
    show ?thesis
      using playing turnX valid by (intro settled [OF _ Update_human_move]) simp_all
  next
    case turnO: False
    have nowait: "\<not> aiDelay g > 0"
    proof
      assume "aiDelay g > 0"
      with playing turnO have "Update inp g = g\<lparr>aiDelay := aiDelay g - 1\<rparr>"
        by (rule Update_ai_wait)
      with changed show False
        by simp
    qed
    show ?thesis
      using playing turnO nowait by (intro settled [OF _ Update_ai_move]) simp_all
  qed
qed

text \<open>
  The human fills the last cell, (2,2), and no line is complete.
\<close>

theorem draw_when_board_fills_witness:
  "checkDraw ((X, O', X), (X, O', O'), (O', X, X))
   \<and> state (Update \<lparr>justPressed = True, cursorX = 500, cursorY = 500, rngDraw = 0\<rparr>
        \<lparr>board = ((X, O', X), (X, O', O'), (O', X, Empty)),
         currentTurn = X, state = Playing, aiDelay = 0\<rparr>) = Draw"
proof -
  let ?f = "\<lparr>justPressed = True, cursorX = 500, cursorY = 500, rngDraw = 0\<rparr>"
  let ?g = "\<lparr>board = ((X, O', X), (X, O', O'), (O', X, Empty)),
         currentTurn = X, state = Playing, aiDelay = 0\<rparr>"
  let ?full = "((X, O', X), (X, O', O'), (O', X, X))"
  have b: "board (Update ?f ?g) = ?full"
    by code_simp
  have "checkDraw ?full"
    by code_simp
  then have h0: "\<forall>i<3. \<forall>j<3. cell ?full i j \<noteq> Empty"
    by (simp only: checkDraw_iff)
  have h1: "\<not> hasLine ?full X" and h2: "\<not> hasLine ?full O'"
    by code_simp+
  have h: "state ?g = Playing \<and> board (Update ?f ?g) \<noteq> board ?g
        \<and> (\<forall>i<3. \<forall>j<3. cell (board (Update ?f ?g)) i j \<noteq> Empty)
        \<and> \<not> hasLine (board (Update ?f ?g)) X \<and> \<not> hasLine (board (Update ?f ?g)) O'"
    unfolding b using h0 h1 h2 by simp
  show ?thesis
    using draw_when_board_fills [of ?full ?g ?f] h h0 by blast
qed

end
